theory Spec2Isabelle
  imports Complex_Main "HOL-Library.AList"
begin

section \<open>Python values, objects and exceptions\<close>

text \<open>
  The store of \<^verbatim>\<open>core/state.py\<close> is a pydantic model whose attributes are assigned
  without validation, so an attribute can hold any Python value. Values are modelled by
  one datatype. Lists and dictionaries are mutable objects: a value of that kind is a
  reference \<open>PyRef a\<close> into a heap of objects, so that two holders of the same list see
  each other's \<^verbatim>\<open>append\<close>. Floats are only carried by the store, never computed on.
\<close>

type_synonym datetime = int

text \<open>\<^verbatim>\<open>Decision(action, explanation, timestamp, confidence)\<close> (state.py, lines 12-18).\<close>

datatype decision = Decision string string datetime real

text \<open>\<^verbatim>\<open>Alert(level, message, timestamp, source)\<close> (state.py, lines 21-27).\<close>

datatype alert = Alert string string datetime string

datatype pyval =
    PyNone
  | PyBool bool
  | PyInt int
  | PyFloat real
  | PyStr string
  | PyDatetime datetime
  | PyDecision decision
  | PyAlert alert
  | PyRef nat

datatype pyobj = PyList "pyval list" | PyDict "(string \<times> pyval) list"

text \<open>
  Exceptions. \<open>CancelledError\<close> and \<open>BaseError\<close> (\<^verbatim>\<open>KeyboardInterrupt\<close>,
  \<^verbatim>\<open>SystemExit\<close>, ...) derive from \<^verbatim>\<open>BaseException\<close> only; the others derive
  from \<^verbatim>\<open>Exception\<close>, which is what every handler of the two modules names.
\<close>

datatype exn =
    ValueError string
  | TypeError string
  | AttributeError string
  | InvalidStateError string
  | RuntimeError string
  | CancelledError
  | BaseError string

fun is_Exception :: "exn \<Rightarrow> bool" where
  "is_Exception CancelledError = False"
| "is_Exception (BaseError m) = False"
| "is_Exception e = True"

type_synonym attrs = "(string \<times> pyval) list"

type_synonym heap = "pyobj list"

definition heap_get :: "heap \<Rightarrow> nat \<Rightarrow> pyobj option" where
  "heap_get h a = (if a < length h then Some (h ! a) else None)"

section \<open>The shared state (core/state.py)\<close>

text \<open>
  The field names of \<^verbatim>\<open>SystemState\<close>, in declaration order (state.py, lines 34-71).
\<close>

definition SystemState_fields :: "string list" where
  "SystemState_fields =
     [''solar_kwh'', ''load_kwh'', ''battery_soc'', ''grid_price'', ''co2_intensity'',
      ''solar_forecast_kwh'', ''load_forecast_kwh'',
      ''timestamp'', ''system_status'',
      ''hvac_status'', ''lighting_status'', ''machine_status'',
      ''total_cost_eur'', ''total_co2_kg'', ''energy_savings_eur'',
      ''current_decision'', ''decision_history'',
      ''active_alerts'', ''alert_history'',
      ''infrastructure_advice'',
      ''simulation_speed'', ''auto_control_enabled'']"

text \<open>
  \<^verbatim>\<open>SystemState()\<close>: the defaults of the field declarations. The three
  \<^verbatim>\<open>default_factory=list\<close> fields and the \<^verbatim>\<open>default_factory=dict\<close> field get four
  fresh objects, allocated at the end of the heap; \<open>now\<close> is what
  \<^verbatim>\<open>datetime.now\<close> returns at construction.
\<close>

definition SystemState_new :: "datetime \<Rightarrow> heap \<Rightarrow> attrs \<times> heap" where
  "SystemState_new now h =
     ([(''solar_kwh'', PyFloat 0),
       (''load_kwh'', PyFloat 0),
       (''battery_soc'', PyFloat 50),
       (''grid_price'', PyFloat (15 / 100)),
       (''co2_intensity'', PyFloat 400),
       (''solar_forecast_kwh'', PyFloat 0),
       (''load_forecast_kwh'', PyFloat 0),
       (''timestamp'', PyDatetime now),
       (''system_status'', PyStr ''running''),
       (''hvac_status'', PyStr ''auto''),
       (''lighting_status'', PyStr ''auto''),
       (''machine_status'', PyStr ''auto''),
       (''total_cost_eur'', PyFloat 0),
       (''total_co2_kg'', PyFloat 0),
       (''energy_savings_eur'', PyFloat 0),
       (''current_decision'', PyNone),
       (''decision_history'', PyRef (length h)),
       (''active_alerts'', PyRef (length h + 1)),
       (''alert_history'', PyRef (length h + 2)),
       (''infrastructure_advice'', PyRef (length h + 3)),
       (''simulation_speed'', PyFloat 1),
       (''auto_control_enabled'', PyBool True)],
      h @ [PyList [], PyList [], PyList [], PyDict []])"

text \<open>
  The base class \<^verbatim>\<open>pydantic.BaseModel\<close> is library code. What the store needs of it
  beyond the fields is taken as a parameter: which other names the object answers
  \<^verbatim>\<open>hasattr\<close> for (methods, class attributes), and what an assignment to such a name
  does (it raises, or it changes the object).
\<close>

record base_class =
  other_attr :: "string \<Rightarrow> bool"
  assign_other :: "string \<Rightarrow> pyval \<Rightarrow> attrs \<Rightarrow> exn + attrs"

text \<open>
  The two names of that kind the sources themselves show: the nested class
  \<^verbatim>\<open>Config\<close> (state.py, line 73) and the method \<^verbatim>\<open>model_copy\<close> (line 88). The
  library refuses an assignment to a public name that is not a field, with a
  \<^verbatim>\<open>ValueError\<close> (its message is shortened here).
\<close>

definition visible_base :: base_class where
  "visible_base =
     \<lparr> other_attr = (\<lambda>k. k = ''Config'' \<or> k = ''model_copy''),
       assign_other = (\<lambda>k v s. Inl (ValueError (''object has no field '' @ k))) \<rparr>"

definition hasattr :: "base_class \<Rightarrow> attrs \<Rightarrow> string \<Rightarrow> bool" where
  "hasattr lib s key = (key \<in> fst ` set s \<or> other_attr lib key)"

definition setattr :: "base_class \<Rightarrow> attrs \<Rightarrow> string \<Rightarrow> pyval \<Rightarrow> exn + attrs" where
  "setattr lib s key v =
     (if key \<in> fst ` set s then Inr (AList.update key v s) else assign_other lib key v s)"

definition getattr :: "attrs \<Rightarrow> string \<Rightarrow> exn + pyval" where
  "getattr s key = (case map_of s key of None \<Rightarrow> Inl (AttributeError key) | Some v \<Rightarrow> Inr v)"

text \<open>
  \<^verbatim>\<open>model_copy()\<close> with no argument is the shallow copy: a new object with the same
  attribute values. A list-valued attribute of the copy is the same reference as in the
  original.
\<close>

definition model_copy :: "attrs \<Rightarrow> attrs" where
  "model_copy s = s"

section \<open>The state manager (core/state.py)\<close>

text \<open>
  A subscriber is a callback handed a snapshot. It is modelled by what its call does
  to the caller: it returns, or it raises. The snapshot's references are read in the
  heap of the moment. The callbacks run while the manager's lock is held; a callback that
  awaits the manager again would wait for that lock, and is not among the subscribers
  modelled here.
\<close>

datatype cb_outcome = Returned | Raised exn

type_synonym subscriber = "attrs \<Rightarrow> heap \<Rightarrow> cb_outcome"

text \<open>
  \<open>state\<close> is \<^verbatim>\<open>self._state\<close>, \<open>subscribers\<close> is \<^verbatim>\<open>self._subscribers\<close>,
  \<open>heap\<close> holds the list and dictionary objects, and \<open>calls\<close> records every callback
  invocation: the position of the subscriber and the snapshot it was handed. Every
  operation below runs under \<^verbatim>\<open>self._lock\<close>, so it is one step.
\<close>

record manager =
  state :: attrs
  subscribers :: "subscriber list"
  heap :: heap
  calls :: "(nat \<times> attrs) list"

definition StateManager_new :: "datetime \<Rightarrow> manager" where
  "StateManager_new now =
     \<lparr> state = fst (SystemState_new now []),
       subscribers = [],
       heap = snd (SystemState_new now []),
       calls = [] \<rparr>"

definition get_state :: "manager \<Rightarrow> attrs" where
  "get_state m = model_copy (state m)"

definition subscribe :: "subscriber \<Rightarrow> manager \<Rightarrow> manager" where
  "subscribe callback m = m\<lparr>subscribers := subscribers m @ [callback]\<rparr>"

text \<open>
  \<^verbatim>\<open>_notify_subscribers\<close> (lines 133-139): the loop over the callbacks, from position
  \<open>i\<close>. \<^verbatim>\<open>except Exception\<close> catches what derives from \<^verbatim>\<open>Exception\<close>; anything
  else leaves the loop and the caller.
\<close>

fun notify_from :: "nat \<Rightarrow> subscriber list \<Rightarrow> manager \<Rightarrow> exn option \<times> manager" where
  "notify_from i [] m = (None, m)"
| "notify_from i (callback # rest) m =
     (let snap = model_copy (state m);
          m' = m\<lparr>calls := calls m @ [(i, snap)]\<rparr>
      in case callback snap (heap m) of
           Returned \<Rightarrow> notify_from (Suc i) rest m'
         | Raised e \<Rightarrow> if is_Exception e then notify_from (Suc i) rest m' else (Some e, m'))"

definition notify_subscribers :: "manager \<Rightarrow> exn option \<times> manager" where
  "notify_subscribers m = notify_from 0 (subscribers m) m"

text \<open>
  The loop of \<^verbatim>\<open>update_state\<close> (lines 93-95) over the keyword arguments, in order. A
  key the object has no attribute for is skipped. An assignment that raises ends the
  call; what was assigned before it stays.
\<close>

fun apply_kwargs :: "base_class \<Rightarrow> (string \<times> pyval) list \<Rightarrow> attrs \<Rightarrow> exn option \<times> attrs" where
  "apply_kwargs lib [] s = (None, s)"
| "apply_kwargs lib ((key, v) # rest) s =
     (if hasattr lib s key
      then (case setattr lib s key v of
              Inl e \<Rightarrow> (Some e, s)
            | Inr s' \<Rightarrow> apply_kwargs lib rest s')
      else apply_kwargs lib rest s)"

text \<open>\<^verbatim>\<open>update_state\<close> (lines 90-101); \<open>now\<close> is what \<^verbatim>\<open>datetime.now()\<close> returns.\<close>

definition update_state ::
  "base_class \<Rightarrow> datetime \<Rightarrow> (string \<times> pyval) list \<Rightarrow> manager \<Rightarrow> exn option \<times> manager" where
  "update_state lib now kwargs m =
     (case apply_kwargs lib kwargs (state m) of
        (Some e, s') \<Rightarrow> (Some e, m\<lparr>state := s'\<rparr>)
      | (None, s') \<Rightarrow>
          notify_subscribers (m\<lparr>state := AList.update ''timestamp'' (PyDatetime now) s'\<rparr>))"

text \<open>
  \<^verbatim>\<open>xs.append(v)\<close> where \<open>xs\<close> is the value of an attribute: it works on a list object
  and raises \<^verbatim>\<open>AttributeError\<close> on anything else the model has.
\<close>

definition list_append :: "pyval \<Rightarrow> pyval \<Rightarrow> heap \<Rightarrow> exn + heap" where
  "list_append target v h =
     (case target of
        PyRef a \<Rightarrow>
          (case heap_get h a of
             Some (PyList xs) \<Rightarrow> Inr (h[a := PyList (xs @ [v])])
           | _ \<Rightarrow> Inl (AttributeError ''append''))
      | _ \<Rightarrow> Inl (AttributeError ''append''))"

text \<open>\<^verbatim>\<open>len(x)\<close> and \<^verbatim>\<open>x[-n:]\<close> for the value of an attribute.\<close>

definition py_len :: "pyval \<Rightarrow> heap \<Rightarrow> exn + nat" where
  "py_len target h =
     (case target of
        PyRef a \<Rightarrow>
          (case heap_get h a of
             Some (PyList xs) \<Rightarrow> Inr (length xs)
           | Some (PyDict kvs) \<Rightarrow> Inr (length kvs)
           | None \<Rightarrow> Inl (RuntimeError ''dangling reference''))
      | PyStr s \<Rightarrow> Inr (length s)
      | _ \<Rightarrow> Inl (TypeError ''object has no len()''))"

definition last_n :: "nat \<Rightarrow> 'a list \<Rightarrow> 'a list" where
  "last_n n xs = drop (length xs - n) xs"

definition py_last_slice :: "nat \<Rightarrow> pyval \<Rightarrow> heap \<Rightarrow> exn + pyval \<times> heap" where
  "py_last_slice n target h =
     (case target of
        PyRef a \<Rightarrow>
          (case heap_get h a of
             Some (PyList xs) \<Rightarrow> Inr (PyRef (length h), h @ [PyList (last_n n xs)])
           | _ \<Rightarrow> Inl (TypeError ''unhashable type: slice''))
      | PyStr s \<Rightarrow> Inr (PyStr (last_n n s), h)
      | _ \<Rightarrow> Inl (TypeError ''object is not subscriptable''))"

text \<open>
  The steps shared by \<^verbatim>\<open>add_decision\<close> and \<^verbatim>\<open>add_alert\<close>: \<open>append_to\<close> appends to
  the list the attribute \<open>field\<close> refers to, in place; \<open>keep_last n\<close> rebinds the
  attribute to a new list of the last \<open>n\<close> entries when the list is longer than \<open>n\<close>.
\<close>

definition append_to :: "string \<Rightarrow> pyval \<Rightarrow> manager \<Rightarrow> exn option \<times> manager" where
  "append_to field v m =
     (case getattr (state m) field of
        Inl e \<Rightarrow> (Some e, m)
      | Inr target \<Rightarrow>
          (case list_append target v (heap m) of
             Inl e \<Rightarrow> (Some e, m)
           | Inr h \<Rightarrow> (None, m\<lparr>heap := h\<rparr>)))"

definition keep_last :: "nat \<Rightarrow> string \<Rightarrow> manager \<Rightarrow> exn option \<times> manager" where
  "keep_last n field m =
     (case getattr (state m) field of
        Inl e \<Rightarrow> (Some e, m)
      | Inr target \<Rightarrow>
          (case py_len target (heap m) of
             Inl e \<Rightarrow> (Some e, m)
           | Inr len \<Rightarrow>
               if len > n
               then (case py_last_slice n target (heap m) of
                       Inl e \<Rightarrow> (Some e, m)
                     | Inr (v, h) \<Rightarrow> (None, m\<lparr>state := AList.update field v (state m), heap := h\<rparr>))
               else (None, m)))"

text \<open>\<^verbatim>\<open>add_decision\<close> (lines 103-111).\<close>

definition add_decision :: "decision \<Rightarrow> manager \<Rightarrow> exn option \<times> manager" where
  "add_decision d m =
     (let m1 = m\<lparr>state := AList.update ''current_decision'' (PyDecision d) (state m)\<rparr>
      in case append_to ''decision_history'' (PyDecision d) m1 of
           (Some e, m2) \<Rightarrow> (Some e, m2)
         | (None, m2) \<Rightarrow> keep_last 100 ''decision_history'' m2)"

text \<open>\<^verbatim>\<open>add_alert\<close> (lines 113-121).\<close>

definition add_alert :: "alert \<Rightarrow> manager \<Rightarrow> exn option \<times> manager" where
  "add_alert a m =
     (case append_to ''active_alerts'' (PyAlert a) m of
        (Some e, m1) \<Rightarrow> (Some e, m1)
      | (None, m1) \<Rightarrow>
          (case append_to ''alert_history'' (PyAlert a) m1 of
             (Some e, m2) \<Rightarrow> (Some e, m2)
           | (None, m2) \<Rightarrow> keep_last 50 ''alert_history'' m2))"

text \<open>The content of a list attribute of a state object, read through the heap.\<close>

definition list_of :: "attrs \<Rightarrow> heap \<Rightarrow> string \<Rightarrow> pyval list option" where
  "list_of s h field =
     (case map_of s field of
        Some (PyRef a) \<Rightarrow> (case heap_get h a of Some (PyList xs) \<Rightarrow> Some xs | _ \<Rightarrow> None)
      | _ \<Rightarrow> None)"

text \<open>What a manager shows of a list attribute, and the object the attribute refers to.\<close>

definition view :: "manager \<Rightarrow> string \<Rightarrow> pyval list option" where
  "view m field = list_of (state m) (heap m) field"

definition ref_of :: "attrs \<Rightarrow> string \<Rightarrow> nat option" where
  "ref_of s field = (case map_of s field of Some (PyRef a) \<Rightarrow> Some a | _ \<Rightarrow> None)"

subsection \<open>Callers\<close>

text \<open>A caller that awaits one \<^verbatim>\<open>add_decision\<close> after the other, until one raises.\<close>

fun add_decisions :: "decision list \<Rightarrow> manager \<Rightarrow> exn option \<times> manager" where
  "add_decisions [] m = (None, m)"
| "add_decisions (d # ds) m =
     (case add_decision d m of
        (Some e, m') \<Rightarrow> (Some e, m')
      | (None, m') \<Rightarrow> add_decisions ds m')"

fun add_alerts :: "alert list \<Rightarrow> manager \<Rightarrow> exn option \<times> manager" where
  "add_alerts [] m = (None, m)"
| "add_alerts (a # as) m =
     (case add_alert a m of
        (Some e, m') \<Rightarrow> (Some e, m')
      | (None, m') \<Rightarrow> add_alerts as m')"

text \<open>A caller that awaits one \<^verbatim>\<open>update_state\<close> after the other, each with its clock reading.\<close>

fun run_updates ::
  "base_class \<Rightarrow> (datetime \<times> (string \<times> pyval) list) list \<Rightarrow> manager \<Rightarrow> exn option \<times> manager" where
  "run_updates lib [] m = (None, m)"
| "run_updates lib ((now, kwargs) # rest) m =
     (case update_state lib now kwargs m of
        (Some e, m') \<Rightarrow> (Some e, m')
      | (None, m') \<Rightarrow> run_updates lib rest m')"

text \<open>
  The reference for notification order. \<open>accepted\<close> says that no assignment of a
  sequence of updates raises; \<open>committed\<close> lists the states the updates leave, in the
  order of the updates; \<open>received j\<close> is what the subscriber at position \<open>j\<close> was handed,
  in the order of the calls.
\<close>

fun accepted :: "base_class \<Rightarrow> (datetime \<times> (string \<times> pyval) list) list \<Rightarrow> attrs \<Rightarrow> bool" where
  "accepted lib [] s = True"
| "accepted lib ((now, kwargs) # rest) s =
     (case apply_kwargs lib kwargs s of
        (Some e, s') \<Rightarrow> False
      | (None, s') \<Rightarrow> accepted lib rest (AList.update ''timestamp'' (PyDatetime now) s'))"

fun committed :: "base_class \<Rightarrow> (datetime \<times> (string \<times> pyval) list) list \<Rightarrow> attrs \<Rightarrow> attrs list" where
  "committed lib [] s = []"
| "committed lib ((now, kwargs) # rest) s =
     (let s' = AList.update ''timestamp'' (PyDatetime now) (snd (apply_kwargs lib kwargs s))
      in s' # committed lib rest s')"

definition received :: "nat \<Rightarrow> (nat \<times> attrs) list \<Rightarrow> attrs list" where
  "received j cs = map snd (filter (\<lambda>c. fst c = j) cs)"

text \<open>A subscriber whose only way to fail is an exception derived from \<^verbatim>\<open>Exception\<close>.\<close>

definition faults_only :: "subscriber \<Rightarrow> bool" where
  "faults_only callback = (\<forall>s h e. callback s h = Raised e \<longrightarrow> is_Exception e)"

text \<open>
  The two alert lists of a manager: what the active list and the history hold, as two
  different list objects.
\<close>

definition alert_lists :: "manager \<Rightarrow> pyval list \<Rightarrow> pyval list \<Rightarrow> bool" where
  "alert_lists m act hist =
     (view m ''active_alerts'' = Some act \<and> view m ''alert_history'' = Some hist
      \<and> ref_of (state m) ''active_alerts'' \<noteq> ref_of (state m) ''alert_history'')"

text \<open>
  Three subscribers for the examples: one raises a fault on every call, one returns, and
  one is cancelled while it is awaited.
\<close>

definition failing_subscriber :: subscriber where
  "failing_subscriber s h = Raised (RuntimeError ''observer failed'')"

definition quiet_subscriber :: subscriber where
  "quiet_subscriber s h = Returned"

definition interrupted_subscriber :: subscriber where
  "interrupted_subscriber s h = Raised CancelledError"

section \<open>The scheduler (core/scheduler.py)\<close>

text \<open>
  An asyncio task is not done while it is \<open>Created\<close> (scheduled by
  \<^verbatim>\<open>asyncio.create_task\<close>, its coroutine not yet entered) or \<open>Suspended\<close> (entered and
  waiting at an \<^verbatim>\<open>await\<close>); it is done when its coroutine returned, was cancelled, or
  raised.
\<close>

datatype task_state = Created | Suspended | Finished | TaskCancelled | Failed exn

definition task_done :: "task_state \<Rightarrow> bool" where
  "task_done st = (st \<noteq> Created \<and> st \<noteq> Suspended)"

definition task_cancelled :: "task_state \<Rightarrow> bool" where
  "task_cancelled st = (st = TaskCancelled)"

text \<open>
  \<^verbatim>\<open>task.exception()\<close>: the exception of a done task or \<^verbatim>\<open>None\<close>; it raises on a task
  that is not done yet, and on a cancelled one.
\<close>

fun task_exception :: "task_state \<Rightarrow> exn + exn option" where
  "task_exception Created = Inl (InvalidStateError ''Exception is not set.'')"
| "task_exception Suspended = Inl (InvalidStateError ''Exception is not set.'')"
| "task_exception TaskCancelled = Inl CancelledError"
| "task_exception Finished = Inr None"
| "task_exception (Failed e) = Inr (Some e)"

fun exn_str :: "exn \<Rightarrow> string" where
  "exn_str (ValueError m) = m"
| "exn_str (TypeError m) = m"
| "exn_str (AttributeError m) = m"
| "exn_str (InvalidStateError m) = m"
| "exn_str (RuntimeError m) = m"
| "exn_str CancelledError = []"
| "exn_str (BaseError m) = m"

text \<open>The state of a task whose coroutine ended by raising \<open>e\<close>.\<close>

definition ended_by :: "exn \<Rightarrow> task_state" where
  "ended_by e = (if e = CancelledError then TaskCancelled else Failed e)"

text \<open>
  An agent instance is any object. The scheduler sees four things of it:
  \<^item> its identity;
  \<^item> its \<^verbatim>\<open>start\<close> attribute: none, a coroutine function, or something else (a plain
    method, a value), for which \<^verbatim>\<open>asyncio.create_task(agent.start())\<close> raises, a
    \<^verbatim>\<open>TypeError\<close> when the call returns something that is no coroutine;
  \<^item> what the coroutine does when it is first run: it reaches an \<^verbatim>\<open>await\<close> that
    suspends it, it returns, or it raises;
  \<^item> what the suspended coroutine does when the task is cancelled: it returns (the
    agents of this repository catch \<^verbatim>\<open>CancelledError\<close> and return), it ends by
    raising, or it goes on.
\<close>

datatype start_attr = NoStart | CoroutineStart | OtherStart exn

datatype first_run = Suspends | ReturnsAtOnce | RaisesAtOnce exn

datatype cancel_reaction = ReturnsOnCancel | RaisesOnCancel exn | IgnoresCancel

record agent =
  agent_id :: nat
  start :: start_attr
  first_step :: first_run
  on_cancel :: cancel_reaction

text \<open>
  A task of the event loop; \<open>owner\<close> is the name it was started under and \<open>runs\<close> the
  instance whose \<^verbatim>\<open>start()\<close> it runs.
\<close>

record task =
  owner :: string
  runs :: agent
  status :: task_state

datatype outcome = Returns | Raises exn | NeverReturns

text \<open>
  \<open>agents\<close>, \<open>tasks\<close>, \<open>running\<close> and \<open>shutdown_event\<close> are the attributes of
  \<^verbatim>\<open>AgentScheduler\<close>; a task handle is the position of the task in \<open>loop_tasks\<close>, the
  tasks the event loop has been given so far. \<open>events\<close> are the calls to the logger
  (event type and subject) and \<open>clock\<close> the seconds slept in \<^verbatim>\<open>asyncio.sleep\<close>.
\<close>

record scheduler =
  agents :: "(string \<times> agent) list"
  tasks :: "(string \<times> nat) list"
  running :: bool
  shutdown_event :: bool
  loop_tasks :: "task list"
  events :: "(string \<times> string) list"
  clock :: nat

definition AgentScheduler_new :: scheduler where
  "AgentScheduler_new =
     \<lparr> agents = [], tasks = [], running = False, shutdown_event = False,
       loop_tasks = [], events = [], clock = 0 \<rparr>"

text \<open>
  \<^verbatim>\<open>logger.log_event\<close> takes its lock and writes without waiting for anything: it does
  not suspend its caller.
\<close>

definition log_event :: "string \<Rightarrow> string \<Rightarrow> scheduler \<Rightarrow> scheduler" where
  "log_event event_type subject s = s\<lparr>events := events s @ [(event_type, subject)]\<rparr>"

text \<open>
  Where a coroutine of the scheduler is suspended, the event loop runs what is ready:
  every task that was created and has not run yet takes its first step.
\<close>

fun after_first_run :: "first_run \<Rightarrow> task_state" where
  "after_first_run Suspends = Suspended"
| "after_first_run ReturnsAtOnce = Finished"
| "after_first_run (RaisesAtOnce e) = ended_by e"

definition run_task :: "task \<Rightarrow> task" where
  "run_task t = (if status t = Created then t\<lparr>status := after_first_run (first_step (runs t))\<rparr> else t)"

definition run_ready :: "scheduler \<Rightarrow> scheduler" where
  "run_ready s = s\<lparr>loop_tasks := map run_task (loop_tasks s)\<rparr>"

text \<open>\<^verbatim>\<open>await asyncio.sleep(n)\<close>.\<close>

definition sleep :: "nat \<Rightarrow> scheduler \<Rightarrow> scheduler" where
  "sleep n s = (run_ready s)\<lparr>clock := clock s + n\<rparr>"

text \<open>
  The state of the task behind a handle. A handle of the task table is a position of
  \<open>loop_tasks\<close> in every reachable state (\<open>table_ok\<close> below).
\<close>

definition task_status :: "scheduler \<Rightarrow> nat \<Rightarrow> task_state" where
  "task_status s tid = status (loop_tasks s ! tid)"

definition set_status :: "nat \<Rightarrow> task_state \<Rightarrow> scheduler \<Rightarrow> scheduler" where
  "set_status tid st s = s\<lparr>loop_tasks := (loop_tasks s)[tid := (loop_tasks s ! tid)\<lparr>status := st\<rparr>]\<rparr>"

text \<open>\<^verbatim>\<open>register_agent\<close> (lines 24-27).\<close>

definition register_agent :: "string \<Rightarrow> agent \<Rightarrow> scheduler \<Rightarrow> scheduler" where
  "register_agent name agent_instance s = s\<lparr>agents := AList.update name agent_instance (agents s)\<rparr>"

text \<open>
  \<^verbatim>\<open>start_agent\<close> (lines 29-41). \<^verbatim>\<open>hasattr(agent, 'start')\<close> fails for \<open>NoStart\<close>
  only. With a \<^verbatim>\<open>start\<close> that is no coroutine function, line 36 raises before the
  handle is recorded. The method does not suspend: the new task has not run when it
  returns.
\<close>

definition start_agent :: "string \<Rightarrow> scheduler \<Rightarrow> outcome \<times> scheduler" where
  "start_agent name s =
     (case map_of (agents s) name of
        None \<Rightarrow> (Raises (ValueError (''Agent '' @ name @ '' not registered'')), s)
      | Some agent \<Rightarrow>
          (case start agent of
             NoStart \<Rightarrow> (Returns, s)
           | OtherStart e \<Rightarrow> (Raises e, s)
           | CoroutineStart \<Rightarrow>
               (Returns,
                log_event ''agent_started'' name
                  (s\<lparr>loop_tasks := loop_tasks s @ [\<lparr>owner = name, runs = agent, status = Created\<rparr>],
                     tasks := AList.update name (length (loop_tasks s)) (tasks s)\<rparr>))))"

text \<open>
  \<^verbatim>\<open>stop_agent\<close> (lines 43-55). \<open>cancelled_end\<close> is how a task that is not done ends
  after \<^verbatim>\<open>task.cancel()\<close>: a task that has not run yet is cancelled before its
  coroutine is entered; a suspended one ends as its coroutine reacts, or does not end.
  \<^verbatim>\<open>await task\<close> suspends the caller, so the ready tasks run; it then ends as the task
  ended: a \<^verbatim>\<open>CancelledError\<close> is caught, another exception leaves \<^verbatim>\<open>stop_agent\<close>
  before the handle is deleted, and a task that goes on keeps the caller waiting.
\<close>

definition cancelled_end :: "task \<Rightarrow> task_state option" where
  "cancelled_end t =
     (if status t = Created then Some TaskCancelled
      else (case on_cancel (runs t) of
              ReturnsOnCancel \<Rightarrow> Some Finished
            | RaisesOnCancel e \<Rightarrow> Some (ended_by e)
            | IgnoresCancel \<Rightarrow> None))"

definition discard_handle :: "string \<Rightarrow> scheduler \<Rightarrow> outcome \<times> scheduler" where
  "discard_handle name s =
     (Returns, log_event ''agent_stopped'' name (s\<lparr>tasks := AList.delete name (tasks s)\<rparr>))"

definition stop_agent :: "string \<Rightarrow> scheduler \<Rightarrow> outcome \<times> scheduler" where
  "stop_agent name s =
     (case map_of (tasks s) name of
        None \<Rightarrow> (Returns, s)
      | Some tid \<Rightarrow>
          if \<not> task_done (task_status s tid)
          then (case cancelled_end (loop_tasks s ! tid) of
                  None \<Rightarrow> (NeverReturns, run_ready s)
                | Some (Failed e) \<Rightarrow> (Raises e, run_ready (set_status tid (Failed e) s))
                | Some st \<Rightarrow> discard_handle name (run_ready (set_status tid st s)))
          else discard_handle name s)"

text \<open>
  \<^verbatim>\<open>start_all_agents\<close> (lines 57-68): \<^verbatim>\<open>gather(..., return_exceptions=True)\<close> collects
  what a \<^verbatim>\<open>start_agent\<close> raises. The starts are taken in the order of the registry;
  awaiting the gathered starts lets the new tasks take their first step.
\<close>

fun start_each :: "string list \<Rightarrow> scheduler \<Rightarrow> scheduler" where
  "start_each [] s = s"
| "start_each (name # names) s = start_each names (snd (start_agent name s))"

definition start_all_agents :: "scheduler \<Rightarrow> outcome \<times> scheduler" where
  "start_all_agents s =
     (let s0 = log_event ''scheduler_started'' ''scheduler'' (s\<lparr>running := True\<rparr>)
      in if agents s = [] then (Returns, s0)
         else (Returns, run_ready (start_each (map fst (agents s)) s0)))"

text \<open>
  \<^verbatim>\<open>stop_all_agents\<close> (lines 70-84) and \<^verbatim>\<open>shutdown\<close> (lines 135-140). The stops
  are gathered, when there is a handle to stop: the tasks that are ready run first, what
  a stop raises is collected, and a stop that never returns keeps the gather waiting
  while the others go on. The flag says whether every stop came back.
\<close>

fun stop_each :: "string list \<Rightarrow> scheduler \<Rightarrow> bool \<times> scheduler" where
  "stop_each [] s = (True, s)"
| "stop_each (name # names) s =
     (case stop_agent name s of
        (NeverReturns, s') \<Rightarrow> (False, snd (stop_each names s'))
      | (other, s') \<Rightarrow> stop_each names s')"

definition stop_all_agents :: "scheduler \<Rightarrow> outcome \<times> scheduler" where
  "stop_all_agents s =
     (let s0 = s\<lparr>running := False, shutdown_event := True\<rparr>
      in if tasks s = [] then (Returns, log_event ''scheduler_stopped'' ''scheduler'' s0)
         else (case stop_each (map fst (tasks s)) (run_ready s0) of
                 (True, s') \<Rightarrow> (Returns, log_event ''scheduler_stopped'' ''scheduler'' s')
               | (False, s') \<Rightarrow> (NeverReturns, s')))"

definition shutdown :: "scheduler \<Rightarrow> outcome \<times> scheduler" where
  "shutdown s =
     (case stop_all_agents s of
        (Returns, s') \<Rightarrow> (Returns, log_event ''system_shutdown'' ''scheduler'' s')
      | other \<Rightarrow> other)"

text \<open>\<^verbatim>\<open>get_agent_status\<close> (lines 86-95): one entry per task handle, in table order.\<close>

datatype status_entry = StatusEntry (is_running: bool) (is_cancelled: bool) (exception_text: "string option")

fun status_from ::
  "scheduler \<Rightarrow> (string \<times> nat) list \<Rightarrow> (string \<times> status_entry) list \<Rightarrow> exn + (string \<times> status_entry) list" where
  "status_from s [] acc = Inr acc"
| "status_from s ((name, tid) # rest) acc =
     (let st = task_status s tid
      in case task_exception st of
           Inl e \<Rightarrow> Inl e
         | Inr x \<Rightarrow>
             status_from s rest
               (AList.update name (StatusEntry (\<not> task_done st) (task_cancelled st) (map_option exn_str x)) acc))"

definition get_agent_status :: "scheduler \<Rightarrow> exn + (string \<times> status_entry) list" where
  "get_agent_status s = status_from s (tasks s) []"

text \<open>\<^verbatim>\<open>restart_agent\<close> (lines 97-102).\<close>

definition restart_agent :: "string \<Rightarrow> scheduler \<Rightarrow> outcome \<times> scheduler" where
  "restart_agent name s =
     (case stop_agent name s of
        (Returns, s1) \<Rightarrow>
          (case start_agent name (sleep 1 s1) of
             (Returns, s2) \<Rightarrow> (Returns, log_event ''agent_restarted'' name s2)
           | other \<Rightarrow> other)
      | other \<Rightarrow> other)"

text \<open>
  \<^verbatim>\<open>monitor_agents\<close> (lines 104-124). \<open>monitor_scan\<close> is the \<^verbatim>\<open>for\<close> loop over the
  copy of the task table taken when the scan starts; \<open>monitor_wake\<close> is one turn of the
  \<^verbatim>\<open>while\<close> loop: the test, the scan in its \<^verbatim>\<open>try\<close>, and the pause.
\<close>

fun monitor_scan :: "(string \<times> nat) list \<Rightarrow> scheduler \<Rightarrow> outcome \<times> scheduler" where
  "monitor_scan [] s = (Returns, s)"
| "monitor_scan ((name, tid) # rest) s =
     (let st = task_status s tid
      in if task_done st \<and> \<not> task_cancelled st
         then (case task_exception st of
                 Inl e \<Rightarrow> (Raises e, s)
               | Inr None \<Rightarrow> monitor_scan rest s
               | Inr (Some exception) \<Rightarrow>
                   (case restart_agent name
                           (log_event ''error'' (''Agent '' @ name @ '' failed: '' @ exn_str exception) s) of
                      (Returns, s') \<Rightarrow> monitor_scan rest s'
                    | other \<Rightarrow> other))
         else monitor_scan rest s)"

datatype loop_turn = LoopEnds | LoopGoesOn | LoopRaises exn | LoopWaits

definition monitor_wake :: "scheduler \<Rightarrow> loop_turn \<times> scheduler" where
  "monitor_wake s =
     (if running s \<and> \<not> shutdown_event s
      then (case monitor_scan (tasks s) s of
              (Returns, s') \<Rightarrow> (LoopGoesOn, sleep 30 s')
            | (Raises e, s') \<Rightarrow>
                if is_Exception e
                then (LoopGoesOn,
                      sleep 60 (log_event ''error'' (''Error in agent monitoring: '' @ exn_str e) s'))
                else (LoopRaises e, s')
            | (NeverReturns, s') \<Rightarrow> (LoopWaits, s'))
      else (LoopEnds, s))"

text \<open>
  What the rest of the program does between two steps of the scheduler, as far as the
  scheduler sees it: a suspended task ends, or the shutdown flag is set. A task that is
  done stays as it is.
\<close>

datatype env_event = TaskEnds nat task_state | ShutdownSet

fun env_step :: "env_event \<Rightarrow> scheduler \<Rightarrow> scheduler" where
  "env_step (TaskEnds tid st) s =
     (if tid < length (loop_tasks s) \<and> task_status s tid = Suspended \<and> task_done st
      then set_status tid st s else s)"
| "env_step ShutdownSet s = s\<lparr>running := False, shutdown_event := True\<rparr>"

text \<open>
  The \<^verbatim>\<open>while\<close> loop of \<^verbatim>\<open>monitor_agents\<close> over a finite horizon: one list of events
  for each pause. When the events are used up the loop is still going on.
\<close>

fun monitor_agents :: "env_event list list \<Rightarrow> scheduler \<Rightarrow> loop_turn \<times> scheduler" where
  "monitor_agents [] s = (LoopGoesOn, s)"
| "monitor_agents (during_pause # later) s =
     (case monitor_wake s of
        (LoopGoesOn, s') \<Rightarrow> monitor_agents later (fold env_step during_pause s')
      | other \<Rightarrow> other)"

text \<open>The tasks not done that were started under a name, tracked by the table or not.\<close>

definition live_tasks :: "string \<Rightarrow> scheduler \<Rightarrow> task list" where
  "live_tasks name s = filter (\<lambda>t. owner t = name \<and> \<not> task_done (status t)) (loop_tasks s)"

text \<open>
  The calls a client can make on a scheduler, a pause of the client (it awaits a sleep),
  and the steps of the rest of the program, as a sequence from the new scheduler: the
  reachable states.
\<close>

datatype call =
    Register string agent
  | Start string
  | Stop string
  | Restart string
  | StartAll
  | StopAll
  | Shutdown
  | MonitorWake
  | Sleep nat
  | Env env_event

fun do_call :: "call \<Rightarrow> scheduler \<Rightarrow> scheduler" where
  "do_call (Register name a) s = register_agent name a s"
| "do_call (Start name) s = snd (start_agent name s)"
| "do_call (Stop name) s = snd (stop_agent name s)"
| "do_call (Restart name) s = snd (restart_agent name s)"
| "do_call StartAll s = snd (start_all_agents s)"
| "do_call StopAll s = snd (stop_all_agents s)"
| "do_call Shutdown s = snd (shutdown s)"
| "do_call MonitorWake s = snd (monitor_wake s)"
| "do_call (Sleep n) s = sleep n s"
| "do_call (Env ev) s = env_step ev s"

definition reached :: "call list \<Rightarrow> scheduler" where
  "reached cs = fold do_call cs AgentScheduler_new"

text \<open>
  The shape of a task table: one handle per name, each handle a task of the loop, each
  name registered.
\<close>

definition table_ok :: "scheduler \<Rightarrow> bool" where
  "table_ok s =
     (distinct (map fst (tasks s))
      \<and> list_all (\<lambda>(name, tid). tid < length (loop_tasks s) \<and> name \<in> fst ` set (agents s)) (tasks s))"

subsection \<open>What the scheduler shows of a worker\<close>

text \<open>
  Agent instances for the examples: two whose \<^verbatim>\<open>start\<close> is a coroutine function
  that runs until it is cancelled, one whose \<^verbatim>\<open>start\<close> is a plain method, one whose
  coroutine raises as soon as it runs, and one whose coroutine goes on when it is
  cancelled.
\<close>

definition worker :: agent where
  "worker = \<lparr>agent_id = 1, start = CoroutineStart, first_step = Suspends, on_cancel = ReturnsOnCancel\<rparr>"

definition other_worker :: agent where
  "other_worker = \<lparr>agent_id = 2, start = CoroutineStart, first_step = Suspends, on_cancel = ReturnsOnCancel\<rparr>"

definition plain_worker :: agent where
  "plain_worker =
     \<lparr>agent_id = 3, start = OtherStart (TypeError ''a coroutine was expected, got None''),
      first_step = Suspends, on_cancel = ReturnsOnCancel\<rparr>"




definition worker_running :: "string \<Rightarrow> scheduler \<Rightarrow> bool" where
  "worker_running name s =
     (case map_of (tasks s) name of
        None \<Rightarrow> False
      | Some tid \<Rightarrow> tid < length (loop_tasks s) \<and> \<not> task_done (task_status s tid))"







text \<open>
  \<open>stays t t'\<close>: a task and what it has become: the same owner and instance; a done
  task as it was; and a task that was not done, of an instance that suspends when first
  run, still not done. \<open>later s s'\<close>: the same registry and flags, the tasks of \<open>s\<close>
  staying in this sense, and possibly new tasks after them.
\<close>

definition stays :: "task \<Rightarrow> task \<Rightarrow> bool" where
  "stays t t' =
     (owner t' = owner t \<and> runs t' = runs t
      \<and> (task_done (status t) \<longrightarrow> status t' = status t)
      \<and> (\<not> task_done (status t) \<and> first_step (runs t) = Suspends \<longrightarrow> \<not> task_done (status t')))"

definition later :: "scheduler \<Rightarrow> scheduler \<Rightarrow> bool" where
  "later s s' =
     (agents s' = agents s \<and> running s' = running s \<and> shutdown_event s' = shutdown_event s
      \<and> length (loop_tasks s) \<le> length (loop_tasks s')
      \<and> (\<forall>i < length (loop_tasks s). stays (loop_tasks s ! i) (loop_tasks s' ! i)))"




section \<open>Properties of the state manager\<close>

lemma fields_of_new_state: "map fst (fst (SystemState_new now h)) = SystemState_fields"
  by (simp add: SystemState_new_def SystemState_fields_def)

lemma view_cases:
  "view m f = Some xs \<longleftrightarrow>
     (\<exists>a. map_of (state m) f = Some (PyRef a) \<and> a < length (heap m) \<and> heap m ! a = PyList xs)"
  by (auto simp: view_def list_of_def heap_get_def split: option.splits pyval.splits pyobj.splits if_splits)

lemma append_to_view:
  assumes "view m f = Some xs"
  shows "fst (append_to f v m) = None"
    and "view (snd (append_to f v m)) f = Some (xs @ [v])"
    and "state (snd (append_to f v m)) = state m"
  using assms
  by (auto simp: view_cases append_to_def getattr_def list_append_def heap_get_def)

lemma append_to_other_view:
  assumes "view m f = Some xs" and "view m g = Some ys" and "ref_of (state m) f \<noteq> ref_of (state m) g"
  shows "view (snd (append_to f v m)) g = Some ys"
  using assms
  by (auto simp: view_cases append_to_def getattr_def list_append_def heap_get_def ref_of_def)

lemma keep_last_view:
  assumes "view m f = Some xs"
  shows "fst (keep_last n f m) = None"
    and "view (snd (keep_last n f m)) f = Some (last_n n xs)"
  using assms
  by (auto simp: view_cases keep_last_def getattr_def py_len_def py_last_slice_def heap_get_def
      last_n_def AList.update_conv' nth_append)

lemma keep_last_other_view:
  assumes "view m f = Some xs" and "view m g = Some ys" and "f \<noteq> g"
  shows "view (snd (keep_last n f m)) g = Some ys"
  using assms
  by (auto simp: view_cases keep_last_def getattr_def py_len_def py_last_slice_def heap_get_def
      AList.update_conv' nth_append)

lemma last_n_snoc: "last_n n (last_n n xs @ [x]) = last_n n (xs @ [x])"
  by (cases "length xs \<le> n") (auto simp: last_n_def Suc_diff_le)

lemma last_n_map: "map f (last_n n xs) = last_n n (map f xs)"
  by (simp add: last_n_def drop_map)

lemma last_n_tl: "length xs = Suc n \<Longrightarrow> last_n n xs = tl xs"
  by (cases xs) (simp_all add: last_n_def)

lemma length_last_n: "length (last_n n xs) = min n (length xs)"
  by (simp add: last_n_def)

lemma add_decision_view:
  assumes "view m ''decision_history'' = Some xs"
  shows "fst (add_decision d m) = None"
    and "view (snd (add_decision d m)) ''decision_history'' = Some (last_n 100 (xs @ [PyDecision d]))"
proof -
  let ?m1 = "m\<lparr>state := AList.update ''current_decision'' (PyDecision d) (state m)\<rparr>"
  have v1: "view ?m1 ''decision_history'' = Some xs"
    using assms by (simp add: view_def list_of_def AList.update_conv')
  obtain m2 where a: "append_to ''decision_history'' (PyDecision d) ?m1 = (None, m2)"
    using append_to_view(1)[OF v1] by (metis prod.collapse)
  have v2: "view m2 ''decision_history'' = Some (xs @ [PyDecision d])"
    using append_to_view(2)[OF v1, of "PyDecision d"] a by simp
  have r: "add_decision d m = keep_last 100 ''decision_history'' m2"
    using a by (simp add: add_decision_def)
  show "fst (add_decision d m) = None"
    using keep_last_view(1)[OF v2] r by simp
  show "view (snd (add_decision d m)) ''decision_history'' = Some (last_n 100 (xs @ [PyDecision d]))"
    using keep_last_view(2)[OF v2] r by simp
qed

lemma add_decisions_snoc:
  "add_decisions (ds @ [d]) m =
     (case add_decisions ds m of
        (Some e, m') \<Rightarrow> (Some e, m')
      | (None, m') \<Rightarrow> add_decision d m')"
  by (induction ds arbitrary: m) (auto split: prod.splits option.splits)

lemma add_decisions_from_empty:
  assumes "view m ''decision_history'' = Some []"
  shows "fst (add_decisions ds m) = None \<and>
         view (snd (add_decisions ds m)) ''decision_history'' = Some (map PyDecision (last_n 100 ds))"
proof (induction ds rule: rev_induct)
  case Nil
  show ?case using assms by (simp add: last_n_def)
next
  case (snoc d ds)
  obtain m' where run: "add_decisions ds m = (None, m')"
    using snoc by (metis prod.collapse)
  have v: "view m' ''decision_history'' = Some (map PyDecision (last_n 100 ds))"
    using snoc run by simp
  have step: "add_decisions (ds @ [d]) m = add_decision d m'"
    using run by (simp add: add_decisions_snoc)
  have "last_n 100 (map PyDecision (last_n 100 ds) @ [PyDecision d]) = map PyDecision (last_n 100 (ds @ [d]))"
    by (simp add: last_n_map last_n_snoc)
  then show ?case
    using add_decision_view[OF v, of d] step by simp
qed

subsection \<open>The alert lists\<close>

lemma add_alert_lists:
  assumes "alert_lists m act hist"
  shows "fst (add_alert a m) = None"
    and "alert_lists (snd (add_alert a m)) (act @ [PyAlert a]) (last_n 50 (hist @ [PyAlert a]))"
proof -
  have va: "view m ''active_alerts'' = Some act" and vh: "view m ''alert_history'' = Some hist"
    and ne: "ref_of (state m) ''active_alerts'' \<noteq> ref_of (state m) ''alert_history''"
    using assms by (simp_all add: alert_lists_def)
  obtain m1 where a1: "append_to ''active_alerts'' (PyAlert a) m = (None, m1)"
    using append_to_view(1)[OF va] by (metis prod.collapse)
  have s1: "state m1 = state m"
    using append_to_view(3)[OF va, of "PyAlert a"] a1 by simp
  have va1: "view m1 ''active_alerts'' = Some (act @ [PyAlert a])"
    using append_to_view(2)[OF va, of "PyAlert a"] a1 by simp
  have vh1: "view m1 ''alert_history'' = Some hist"
    using append_to_other_view[OF va vh ne, of "PyAlert a"] a1 by simp
  obtain m2 where a2: "append_to ''alert_history'' (PyAlert a) m1 = (None, m2)"
    using append_to_view(1)[OF vh1] by (metis prod.collapse)
  have s2: "state m2 = state m"
    using append_to_view(3)[OF vh1, of "PyAlert a"] a2 s1 by simp
  have vh2: "view m2 ''alert_history'' = Some (hist @ [PyAlert a])"
    using append_to_view(2)[OF vh1, of "PyAlert a"] a2 by simp
  have ne1: "ref_of (state m1) ''alert_history'' \<noteq> ref_of (state m1) ''active_alerts''"
    using ne s1 by simp
  have va2: "view m2 ''active_alerts'' = Some (act @ [PyAlert a])"
    using append_to_other_view[OF vh1 va1 ne1, of "PyAlert a"] a2 by simp
  have r: "add_alert a m = keep_last 50 ''alert_history'' m2"
    using a1 a2 by (simp add: add_alert_def)
  show "fst (add_alert a m) = None"
    using keep_last_view(1)[OF vh2] r by simp
  have "view (snd (add_alert a m)) ''alert_history'' = Some (last_n 50 (hist @ [PyAlert a]))"
    using keep_last_view(2)[OF vh2] r by simp
  moreover have "view (snd (add_alert a m)) ''active_alerts'' = Some (act @ [PyAlert a])"
    using keep_last_other_view[OF vh2 va2] r by simp
  moreover have "ref_of (state (snd (add_alert a m))) ''active_alerts''
                  \<noteq> ref_of (state (snd (add_alert a m))) ''alert_history''"
  proof -
    obtain x y where x: "map_of (state m2) ''active_alerts'' = Some (PyRef x)" "x < length (heap m2)"
      and y: "map_of (state m2) ''alert_history'' = Some (PyRef y)" "y < length (heap m2)"
      using va2 vh2 by (auto simp: view_cases)
    have "x \<noteq> y" using ne s2 x y by (simp add: ref_of_def)
    then show ?thesis
      using x y vh2 unfolding r
      by (auto simp: view_cases keep_last_def getattr_def py_len_def py_last_slice_def heap_get_def
          ref_of_def AList.update_conv')
  qed
  ultimately show "alert_lists (snd (add_alert a m)) (act @ [PyAlert a]) (last_n 50 (hist @ [PyAlert a]))"
    by (simp add: alert_lists_def)
qed

lemma add_alerts_snoc:
  "add_alerts (as @ [a]) m =
     (case add_alerts as m of
        (Some e, m') \<Rightarrow> (Some e, m')
      | (None, m') \<Rightarrow> add_alert a m')"
  by (induction as arbitrary: m) (auto split: prod.splits option.splits)

lemma add_alerts_from_empty:
  assumes "alert_lists m [] []"
  shows "fst (add_alerts as m) = None \<and>
         alert_lists (snd (add_alerts as m)) (map PyAlert as) (map PyAlert (last_n 50 as))"
proof (induction as rule: rev_induct)
  case Nil
  show ?case using assms by (simp add: last_n_def)
next
  case (snoc a as)
  obtain m' where run: "add_alerts as m = (None, m')"
    using snoc by (metis prod.collapse)
  have v: "alert_lists m' (map PyAlert as) (map PyAlert (last_n 50 as))"
    using snoc run by simp
  have step: "add_alerts (as @ [a]) m = add_alert a m'"
    using run by (simp add: add_alerts_snoc)
  have "last_n 50 (map PyAlert (last_n 50 as) @ [PyAlert a]) = map PyAlert (last_n 50 (as @ [a]))"
    by (simp add: last_n_map last_n_snoc)
  then show ?case
    using add_alert_lists[OF v, of a] step by simp
qed

subsection \<open>Notification\<close>

lemma notify_from_returns:
  "notify_from i cbs m = (None, m') \<Longrightarrow>
     m' = m\<lparr>calls := calls m @ map (\<lambda>k. (k, state m)) [i..<i + length cbs]\<rparr>"
proof (induction cbs arbitrary: i m)
  case Nil
  then show ?case by simp
next
  case (Cons cb cbs)
  let ?m1 = "m\<lparr>calls := calls m @ [(i, state m)]\<rparr>"
  have "notify_from (Suc i) cbs ?m1 = (None, m')"
    using Cons.prems by (auto simp: model_copy_def Let_def split: cb_outcome.splits if_splits)
  from Cons.IH[OF this] have "m' = ?m1\<lparr>calls := calls ?m1 @ map (\<lambda>k. (k, state m)) [Suc i..<Suc i + length cbs]\<rparr>"
    by simp
  moreover have "[i..<i + length (cb # cbs)] = i # [Suc i..<Suc i + length cbs]"
    using upt_conv_Cons[of i "Suc (i + length cbs)"] by (simp del: upt_Suc)
  ultimately show ?case
    by (simp del: upt_Suc)
qed

lemma notify_from_faults_only:
  "list_all faults_only cbs \<Longrightarrow> fst (notify_from i cbs m) = None"
proof (induction cbs arbitrary: i m)
  case Nil
  then show ?case by simp
next
  case (Cons cb cbs)
  then show ?case
    by (auto simp: faults_only_def Let_def split: cb_outcome.splits)
qed

lemma received_append: "received j (xs @ ys) = received j xs @ received j ys"
  by (simp add: received_def)

lemma received_round: "j < n \<Longrightarrow> received j (map (\<lambda>k. (k, s)) [0..<n]) = [s]"
proof (induction n)
  case 0
  then show ?case by simp
next
  case (Suc n)
  show ?case
  proof (cases "j = n")
    case True
    have "filter (\<lambda>c. fst c = n) (map (\<lambda>k. (k, s)) [0..<n]) = []"
      by (auto simp: filter_empty_conv)
    then show ?thesis using True by (simp add: received_def)
  next
    case False
    then have "j < n" using Suc.prems by simp
    from Suc.IH[OF this] False show ?thesis by (simp add: received_def)
  qed
qed

lemma update_state_returns:
  assumes "update_state lib now kwargs m = (None, m')"
  shows "fst (apply_kwargs lib kwargs (state m)) = None"
    and "m' = m\<lparr>state := AList.update ''timestamp'' (PyDatetime now) (snd (apply_kwargs lib kwargs (state m))),
               calls := calls m @ map (\<lambda>k. (k, AList.update ''timestamp'' (PyDatetime now)
                                                  (snd (apply_kwargs lib kwargs (state m)))))
                                      [0..<length (subscribers m)]\<rparr>"
proof -
  obtain r s' where a: "apply_kwargs lib kwargs (state m) = (r, s')"
    by (cases "apply_kwargs lib kwargs (state m)")
  show r: "fst (apply_kwargs lib kwargs (state m)) = None"
    using assms a by (cases r) (auto simp: update_state_def)
  let ?S = "AList.update ''timestamp'' (PyDatetime now) s'"
  have "notify_from 0 (subscribers m) (m\<lparr>state := ?S\<rparr>) = (None, m')"
    using assms a r by (simp add: update_state_def notify_subscribers_def)
  from notify_from_returns[OF this] a
  show "m' = m\<lparr>state := AList.update ''timestamp'' (PyDatetime now) (snd (apply_kwargs lib kwargs (state m))),
               calls := calls m @ map (\<lambda>k. (k, AList.update ''timestamp'' (PyDatetime now)
                                                  (snd (apply_kwargs lib kwargs (state m)))))
                                      [0..<length (subscribers m)]\<rparr>"
    by simp
qed

lemma update_state_faults_only:
  assumes "list_all faults_only (subscribers m)" and "fst (apply_kwargs lib kwargs (state m)) = None"
  shows "fst (update_state lib now kwargs m) = None"
proof -
  obtain s' where a: "apply_kwargs lib kwargs (state m) = (None, s')"
    using assms(2) by (metis prod.collapse)
  show ?thesis
    using a notify_from_faults_only[OF assms(1), of 0 "m\<lparr>state := AList.update ''timestamp'' (PyDatetime now) s'\<rparr>"]
    by (simp add: update_state_def notify_subscribers_def)
qed

text \<open>
  Claim C8. Let every subscriber of a manager fail, when it fails, with an exception
  derived from \<^verbatim>\<open>Exception\<close> (a fault), and let a sequence of updates be accepted (no
  assignment raises). Then every update of the sequence returns normally, whatever the
  subscribers raise, and each subscriber, at whatever position, is handed exactly the
  states the updates committed, in the order of the updates, after what it had been
  handed before.
\<close>

theorem observer_fault_isolated:
  assumes "list_all faults_only (subscribers m)"
      and "accepted lib ups (state m)"
      and "j < length (subscribers m)"
  shows "fst (run_updates lib ups m) = None
       \<and> received j (calls (snd (run_updates lib ups m)))
           = received j (calls m) @ committed lib ups (state m)"
  using assms
proof (induction ups arbitrary: m)
  case Nil
  then show ?case by simp
next
  case (Cons u ups)
  obtain now kwargs where u: "u = (now, kwargs)" by (cases u)
  have ak: "fst (apply_kwargs lib kwargs (state m)) = None"
    using Cons.prems(2) u by (auto split: prod.splits option.splits)
  let ?S = "AList.update ''timestamp'' (PyDatetime now) (snd (apply_kwargs lib kwargs (state m)))"
  have acc: "accepted lib ups ?S"
    using Cons.prems(2) u by (auto split: prod.splits option.splits)
  obtain m' where up: "update_state lib now kwargs m = (None, m')"
    using update_state_faults_only[OF Cons.prems(1) ak] by (metis prod.collapse)
  note shape = update_state_returns(2)[OF up]
  have st: "state m' = ?S" and subs: "subscribers m' = subscribers m"
    and cs: "calls m' = calls m @ map (\<lambda>k. (k, ?S)) [0..<length (subscribers m)]"
    by (subst shape, simp)+
  have ih: "fst (run_updates lib ups m') = None
       \<and> received j (calls (snd (run_updates lib ups m')))
           = received j (calls m') @ committed lib ups (state m')"
    using Cons.IH[of m'] Cons.prems(1,3) acc st subs by simp
  have "received j (calls m') = received j (calls m) @ [?S]"
    using cs received_round[OF Cons.prems(3)] by (simp add: received_append)
  then show ?case
    using ih up u st by (simp add: Let_def)
qed

lemmas new_manager_defs = StateManager_new_def SystemState_new_def view_def list_of_def heap_get_def
  ref_of_def

lemmas update_defs = update_state_def notify_subscribers_def hasattr_def setattr_def model_copy_def
  visible_base_def subscribe_def

text \<open>
  Claim C8, at an instance: a subscriber that raises on every call is subscribed before
  one that returns; after two updates the second has received both committed states.
\<close>

theorem observer_fault_isolated_witness:
  "list_all faults_only (subscribers (subscribe quiet_subscriber (subscribe failing_subscriber (StateManager_new 0))))
   \<and> accepted visible_base
        [(1, [(''solar_kwh'', PyFloat 2)]), (2, [(''load_kwh'', PyFloat 3), (''unknown'', PyNone)])]
        (state (subscribe quiet_subscriber (subscribe failing_subscriber (StateManager_new 0))))
   \<and> fst (run_updates visible_base
          [(1, [(''solar_kwh'', PyFloat 2)]), (2, [(''load_kwh'', PyFloat 3), (''unknown'', PyNone)])]
          (subscribe quiet_subscriber (subscribe failing_subscriber (StateManager_new 0)))) = None
   \<and> received 1 (calls (snd (run_updates visible_base
          [(1, [(''solar_kwh'', PyFloat 2)]), (2, [(''load_kwh'', PyFloat 3), (''unknown'', PyNone)])]
          (subscribe quiet_subscriber (subscribe failing_subscriber (StateManager_new 0))))))
     = committed visible_base
          [(1, [(''solar_kwh'', PyFloat 2)]), (2, [(''load_kwh'', PyFloat 3), (''unknown'', PyNone)])]
          (state (subscribe quiet_subscriber (subscribe failing_subscriber (StateManager_new 0))))"
proof -
  let ?m = "subscribe quiet_subscriber (subscribe failing_subscriber (StateManager_new 0))"
  let ?ups = "[(1, [(''solar_kwh'', PyFloat 2)]), (2, [(''load_kwh'', PyFloat 3), (''unknown'', PyNone)])]"
  have h1: "list_all faults_only (subscribers ?m)"
    by (simp add: subscribe_def StateManager_new_def faults_only_def failing_subscriber_def
        quiet_subscriber_def)
  have h2: "accepted visible_base ?ups (state ?m)"
    by (simp add: new_manager_defs update_defs)
  have h3: "1 < length (subscribers ?m)"
    by (simp add: subscribe_def StateManager_new_def)
  have h4: "received 1 (calls ?m) = []"
    by (simp add: subscribe_def StateManager_new_def received_def)
  show ?thesis
    using h1 h2 h4 observer_fault_isolated[OF h1 h2 h3] by simp
qed

lemma append_to_frame:
  "state (snd (append_to f v m)) = state m" "calls (snd (append_to f v m)) = calls m"
  by (auto simp: append_to_def split: sum.splits)

lemma keep_last_frame:
  "f \<noteq> k \<Longrightarrow> map_of (state (snd (keep_last n f m))) k = map_of (state m) k"
  "calls (snd (keep_last n f m)) = calls m"
  by (auto simp: keep_last_def AList.update_conv' split: sum.splits)

lemma add_decision_frame:
  "map_of (state (snd (add_decision d m))) ''timestamp'' = map_of (state m) ''timestamp''"
  "calls (snd (add_decision d m)) = calls m"
proof -
  let ?m1 = "m\<lparr>state := AList.update ''current_decision'' (PyDecision d) (state m)\<rparr>"
  obtain r m2 where a: "append_to ''decision_history'' (PyDecision d) ?m1 = (r, m2)"
    by (cases "append_to ''decision_history'' (PyDecision d) ?m1")
  have s2: "state m2 = state ?m1" and c2: "calls m2 = calls m"
    using append_to_frame[of "''decision_history''" "PyDecision d" ?m1] a by simp_all
  have t2: "map_of (state m2) ''timestamp'' = map_of (state m) ''timestamp''"
    using s2 by (simp add: AList.update_conv')
  show "map_of (state (snd (add_decision d m))) ''timestamp'' = map_of (state m) ''timestamp''"
    using a t2 keep_last_frame(1)[of "''decision_history''" "''timestamp''" 100 m2]
    by (cases r) (simp_all add: add_decision_def)
  show "calls (snd (add_decision d m)) = calls m"
    using a c2 keep_last_frame(2)[of 100 "''decision_history''" m2]
    by (cases r) (simp_all add: add_decision_def)
qed

lemma add_alert_frame:
  "map_of (state (snd (add_alert a m))) ''timestamp'' = map_of (state m) ''timestamp''"
  "calls (snd (add_alert a m)) = calls m"
proof -
  obtain r1 m1 where a1: "append_to ''active_alerts'' (PyAlert a) m = (r1, m1)"
    by (cases "append_to ''active_alerts'' (PyAlert a) m")
  obtain r2 m2 where a2: "append_to ''alert_history'' (PyAlert a) m1 = (r2, m2)"
    by (cases "append_to ''alert_history'' (PyAlert a) m1")
  have s1: "state m1 = state m" and c1: "calls m1 = calls m"
    using append_to_frame[of "''active_alerts''" "PyAlert a" m] a1 by simp_all
  have s2: "state m2 = state m" and c2: "calls m2 = calls m"
    using append_to_frame[of "''alert_history''" "PyAlert a" m1] a2 s1 c1 by simp_all
  show "map_of (state (snd (add_alert a m))) ''timestamp'' = map_of (state m) ''timestamp''"
    using a1 a2 s1 s2 keep_last_frame(1)[of "''alert_history''" "''timestamp''" 50 m2]
    by (cases r1; cases r2) (simp_all add: add_alert_def)
  show "calls (snd (add_alert a m)) = calls m"
    using a1 a2 c1 c2 keep_last_frame(2)[of 50 "''alert_history''" m2]
    by (cases r1; cases r2) (simp_all add: add_alert_def)
qed

lemma notify_from_frame:
  "state (snd (notify_from i cbs m)) = state m"
  "subscribers (snd (notify_from i cbs m)) = subscribers m"
  by (induction cbs arbitrary: i m) (auto simp: Let_def split: cb_outcome.splits)

lemma apply_kwargs_fields:
  assumes "list_all (\<lambda>kv. fst kv \<in> fst ` set s \<or> \<not> other_attr lib (fst kv)) kwargs"
  shows "fst (apply_kwargs lib kwargs s) = None"
  using assms
proof (induction kwargs arbitrary: s)
  case Nil
  then show ?case by simp
next
  case (Cons kv kwargs)
  obtain key v where kv: "kv = (key, v)" by (cases kv)
  show ?case
  proof (cases "key \<in> fst ` set s")
    case True
    have keys: "fst ` set (AList.update key v s) = fst ` set s"
      using True by (auto simp: AList.dom_update)
    have "list_all (\<lambda>kv. fst kv \<in> fst ` set (AList.update key v s) \<or> \<not> other_attr lib (fst kv)) kwargs"
      using Cons.prems by (simp add: keys)
    from Cons.IH[OF this] show ?thesis
      using True kv by (simp add: hasattr_def setattr_def)
  next
    case False
    then have "\<not> hasattr lib s key"
      using Cons.prems kv by (simp add: hasattr_def)
    moreover have "list_all (\<lambda>kv. fst kv \<in> fst ` set s \<or> \<not> other_attr lib (fst kv)) kwargs"
      using Cons.prems by simp
    ultimately show ?thesis
      using Cons.IH kv by simp
  qed
qed

lemma update_state_timestamp:
  assumes "fst (apply_kwargs lib kwargs (state m)) = None"
  shows "map_of (state (snd (update_state lib now kwargs m))) ''timestamp'' = Some (PyDatetime now)"
proof -
  obtain s' where a: "apply_kwargs lib kwargs (state m) = (None, s')"
    using assms by (metis prod.collapse)
  show ?thesis
    using a by (simp add: update_state_def notify_subscribers_def notify_from_frame AList.update_conv')
qed

text \<open>
  Claim C10 does not hold of every call. An \<^verbatim>\<open>update_state\<close> whose keyword names an
  attribute that is no field (\<^verbatim>\<open>model_copy\<close>) raises at the assignment: the timestamp
  stays at 0 and no subscriber is called. An \<^verbatim>\<open>update_state\<close> whose first subscriber is
  cancelled raises \<^verbatim>\<open>CancelledError\<close>, which the handler does not catch: the second
  subscriber is not called.
\<close>

theorem update_state_can_skip_refresh_and_notification:
  "fst (update_state visible_base 7 [(''model_copy'', PyInt 1)] (subscribe quiet_subscriber (StateManager_new 0)))
     = Some (ValueError ''object has no field model_copy'')
   \<and> map_of (state (snd (update_state visible_base 7 [(''model_copy'', PyInt 1)]
                        (subscribe quiet_subscriber (StateManager_new 0))))) ''timestamp''
       = Some (PyDatetime 0)
   \<and> calls (snd (update_state visible_base 7 [(''model_copy'', PyInt 1)]
                        (subscribe quiet_subscriber (StateManager_new 0)))) = []
   \<and> fst (update_state visible_base 7 []
            (subscribe quiet_subscriber (subscribe interrupted_subscriber (StateManager_new 0))))
       = Some CancelledError
   \<and> map fst (calls (snd (update_state visible_base 7 []
            (subscribe quiet_subscriber (subscribe interrupted_subscriber (StateManager_new 0)))))) = [0]"
  by (simp add: new_manager_defs update_defs quiet_subscriber_def interrupted_subscriber_def)

text \<open>
  Claim C10, amended. An \<^verbatim>\<open>update_state\<close> call each of whose keyword names is a field
  of the state or no attribute of the object at all (so also the call with no keyword)
  sets the timestamp to the clock reading of the call; when moreover every subscriber
  fails with faults only, the call returns and has called every subscriber once, in
  subscription order, with a copy of the state it left. Any \<^verbatim>\<open>update_state\<close> call that
  returns has done both. \<^verbatim>\<open>add_decision\<close> and \<^verbatim>\<open>add_alert\<close> leave the timestamp as it
  is and call no subscriber, whether they return or raise.
\<close>

theorem only_update_state_refreshes_and_notifies:
  "(list_all (\<lambda>kv. fst kv \<in> fst ` set (state m) \<or> \<not> other_attr lib (fst kv)) kwargs \<longrightarrow>
      map_of (state (snd (update_state lib now kwargs m))) ''timestamp'' = Some (PyDatetime now)
      \<and> (list_all faults_only (subscribers m) \<longrightarrow>
           fst (update_state lib now kwargs m) = None
           \<and> calls (snd (update_state lib now kwargs m))
               = calls m @ map (\<lambda>k. (k, state (snd (update_state lib now kwargs m))))
                               [0..<length (subscribers m)]))
   \<and> (update_state lib now kwargs m = (None, m') \<longrightarrow>
      map_of (state m') ''timestamp'' = Some (PyDatetime now)
      \<and> calls m' = calls m @ map (\<lambda>k. (k, state m')) [0..<length (subscribers m)])
   \<and> map_of (state (snd (add_decision d m))) ''timestamp'' = map_of (state m) ''timestamp''
   \<and> calls (snd (add_decision d m)) = calls m
   \<and> map_of (state (snd (add_alert a m))) ''timestamp'' = map_of (state m) ''timestamp''
   \<and> calls (snd (add_alert a m)) = calls m"
proof -
  have returned: "map_of (state m') ''timestamp'' = Some (PyDatetime now)
      \<and> calls m' = calls m @ map (\<lambda>k. (k, state m')) [0..<length (subscribers m)]"
    if up: "update_state lib now kwargs m = (None, m')" for m'
    by (subst (1 2 3) update_state_returns(2)[OF up]) (simp add: AList.update_conv')
  have fields: "map_of (state (snd (update_state lib now kwargs m))) ''timestamp'' = Some (PyDatetime now)
      \<and> (list_all faults_only (subscribers m) \<longrightarrow>
           fst (update_state lib now kwargs m) = None
           \<and> calls (snd (update_state lib now kwargs m))
               = calls m @ map (\<lambda>k. (k, state (snd (update_state lib now kwargs m))))
                               [0..<length (subscribers m)])"
    if ks: "list_all (\<lambda>kv. fst kv \<in> fst ` set (state m) \<or> \<not> other_attr lib (fst kv)) kwargs"
  proof -
    note ak = apply_kwargs_fields[OF ks]
    have "fst (update_state lib now kwargs m) = None
           \<and> calls (snd (update_state lib now kwargs m))
               = calls m @ map (\<lambda>k. (k, state (snd (update_state lib now kwargs m))))
                               [0..<length (subscribers m)]"
      if fo: "list_all faults_only (subscribers m)"
    proof -
      have r: "fst (update_state lib now kwargs m) = None"
        using update_state_faults_only[OF fo ak] .
      then have "update_state lib now kwargs m = (None, snd (update_state lib now kwargs m))"
        by (metis prod.collapse)
      from returned[OF this] r show ?thesis by simp
    qed
    then show ?thesis using update_state_timestamp[OF ak] by simp
  qed
  show ?thesis
    using fields returned by (simp add: add_decision_frame add_alert_frame)
qed

text \<open>
  Claim C10, amended, at an instance: an update that names one field and one unknown
  name, on a manager whose first subscriber raises a fault, and an \<^verbatim>\<open>add_decision\<close> on
  the same manager.
\<close>

theorem only_update_state_refreshes_and_notifies_witness:
  "list_all (\<lambda>kv. fst kv \<in> fst ` set (state (subscribe quiet_subscriber (subscribe failing_subscriber (StateManager_new 0))))
                    \<or> \<not> other_attr visible_base (fst kv))
        [(''solar_kwh'', PyFloat 2), (''unknown'', PyNone)]
   \<and> list_all faults_only (subscribers (subscribe quiet_subscriber (subscribe failing_subscriber (StateManager_new 0))))
   \<and> fst (update_state visible_base 9 [(''solar_kwh'', PyFloat 2), (''unknown'', PyNone)]
        (subscribe quiet_subscriber (subscribe failing_subscriber (StateManager_new 0)))) = None
   \<and> map_of (state (snd (update_state visible_base 9 [(''solar_kwh'', PyFloat 2), (''unknown'', PyNone)]
        (subscribe quiet_subscriber (subscribe failing_subscriber (StateManager_new 0))))))
      ''timestamp'' = Some (PyDatetime 9)
   \<and> map fst (calls (snd (update_state visible_base 9 [(''solar_kwh'', PyFloat 2), (''unknown'', PyNone)]
        (subscribe quiet_subscriber (subscribe failing_subscriber (StateManager_new 0)))))) = [0, 1]
   \<and> calls (snd (add_decision (Decision ''charge'' ''cheap power'' 3 1)
        (subscribe quiet_subscriber (subscribe failing_subscriber (StateManager_new 0))))) = []"
proof -
  let ?m = "subscribe quiet_subscriber (subscribe failing_subscriber (StateManager_new 0))"
  let ?kw = "[(''solar_kwh'', PyFloat 2), (''unknown'', PyNone)]"
  have h1: "list_all (\<lambda>kv. fst kv \<in> fst ` set (state ?m) \<or> \<not> other_attr visible_base (fst kv)) ?kw"
    by (simp add: new_manager_defs update_defs)
  have h2: "list_all faults_only (subscribers ?m)"
    by (simp add: subscribe_def StateManager_new_def faults_only_def failing_subscriber_def
        quiet_subscriber_def)
  have h3: "calls ?m = []" "length (subscribers ?m) = 2"
    by (simp_all add: subscribe_def StateManager_new_def)
  have two: "[0..<2] = [0, Suc 0]" by (simp add: upt_rec)
  show ?thesis
    using h1 h2 h3
      only_update_state_refreshes_and_notifies[of ?m visible_base ?kw 9 ?m
        "Decision ''charge'' ''cheap power'' 3 1" "Alert ''info'' ''x'' 1 ''y''"]
    by (simp add: two comp_def)
qed

subsection \<open>Unknown names in an update\<close>

lemma apply_kwargs_append:
  "apply_kwargs lib (xs @ ys) s =
     (case apply_kwargs lib xs s of
        (Some e, s') \<Rightarrow> (Some e, s')
      | (None, s') \<Rightarrow> apply_kwargs lib ys s')"
  by (induction xs arbitrary: s) (auto split: sum.splits)

text \<open>
  Claim C1 does not hold: \<^verbatim>\<open>update_state(bogus_field=1)\<close> on a new manager, where
  \<^verbatim>\<open>bogus_field\<close> is no field of the schema and no attribute of the object, returns
  without an error and changes the state (the timestamp goes from 0 to 7).
\<close>

theorem unknown_field_not_rejected:
  "''bogus_field'' \<notin> set SystemState_fields
   \<and> \<not> hasattr visible_base (state (StateManager_new 0)) ''bogus_field''
   \<and> fst (update_state visible_base 7 [(''bogus_field'', PyInt 1)] (StateManager_new 0)) = None
   \<and> map_of (state (StateManager_new 0)) ''timestamp'' = Some (PyDatetime 0)
   \<and> map_of (state (snd (update_state visible_base 7 [(''bogus_field'', PyInt 1)] (StateManager_new 0))))
        ''timestamp'' = Some (PyDatetime 7)"
  by (simp add: SystemState_fields_def new_manager_defs update_defs)

text \<open>
  Claim C1, amended. A keyword argument whose name the state object has no attribute for
  when the loop reaches it is skipped: the call does what the call without that argument
  does, to the state, to the subscribers and in what it returns.
\<close>

theorem unknown_field_skipped:
  assumes "\<not> hasattr lib (snd (apply_kwargs lib before (state m))) key"
  shows "update_state lib now (before @ (key, v) # after) m = update_state lib now (before @ after) m"
proof -
  have "apply_kwargs lib (before @ (key, v) # after) (state m) = apply_kwargs lib (before @ after) (state m)"
    using assms by (auto simp: apply_kwargs_append split: prod.splits option.splits)
  then show ?thesis
    by (simp add: update_state_def)
qed

text \<open>
  Claim C1, amended, at an instance: an unknown name between two fields.
\<close>

theorem unknown_field_skipped_witness:
  "\<not> hasattr visible_base
        (snd (apply_kwargs visible_base [(''solar_kwh'', PyFloat 2)] (state (StateManager_new 0))))
        ''bogus_field''
   \<and> update_state visible_base 7
        ([(''solar_kwh'', PyFloat 2)] @ (''bogus_field'', PyInt 1) # [(''load_kwh'', PyFloat 3)])
        (StateManager_new 0)
     = update_state visible_base 7 ([(''solar_kwh'', PyFloat 2)] @ [(''load_kwh'', PyFloat 3)])
        (StateManager_new 0)"
proof -
  have h: "\<not> hasattr visible_base
        (snd (apply_kwargs visible_base [(''solar_kwh'', PyFloat 2)] (state (StateManager_new 0))))
        ''bogus_field''"
    by (simp add: new_manager_defs update_defs)
  show ?thesis
    using h unknown_field_skipped[OF h, of 7 "PyInt 1" "[(''load_kwh'', PyFloat 3)]"] by blast
qed

subsection \<open>Snapshots\<close>

text \<open>
  Claim C2 at a failing input. The snapshot taken from a new manager shows an empty
  decision history; after one \<^verbatim>\<open>add_decision\<close> on the manager the same snapshot shows
  the decision in its history, and after one \<^verbatim>\<open>add_alert\<close> it shows the alert in both
  of its alert lists: the copy is shallow and the lists are shared.
\<close>

theorem snapshot_shares_history_list:
  "list_of (get_state (StateManager_new 0)) (heap (StateManager_new 0)) ''decision_history'' = Some []
   \<and> fst (add_decision (Decision ''charge'' ''cheap power'' 3 1) (StateManager_new 0)) = None
   \<and> list_of (get_state (StateManager_new 0))
        (heap (snd (add_decision (Decision ''charge'' ''cheap power'' 3 1) (StateManager_new 0))))
        ''decision_history''
     = Some [PyDecision (Decision ''charge'' ''cheap power'' 3 1)]
   \<and> list_of (get_state (StateManager_new 0))
        (heap (snd (add_alert (Alert ''warning'' ''low battery'' 4 ''ingestion'') (StateManager_new 0))))
        ''active_alerts''
     = Some [PyAlert (Alert ''warning'' ''low battery'' 4 ''ingestion'')]
   \<and> list_of (get_state (StateManager_new 0))
        (heap (snd (add_alert (Alert ''warning'' ''low battery'' 4 ''ingestion'') (StateManager_new 0))))
        ''alert_history''
     = Some [PyAlert (Alert ''warning'' ''low battery'' 4 ''ingestion'')]"
  by (simp add: new_manager_defs get_state_def model_copy_def add_decision_def add_alert_def
      append_to_def keep_last_def getattr_def list_append_def py_len_def)

subsection \<open>The bounded histories\<close>

text \<open>
  Claim C6. From a manager whose decision history is empty, 101 calls of
  \<^verbatim>\<open>add_decision\<close> all return, and the history is then the 100 decisions of calls 2
  to 101 in call order. After any number \<open>k\<close> of the calls the history is the last 100
  decisions added so far, in call order, and never longer than 100.
\<close>

theorem add_decision_101_keeps_last_100:
  assumes "view m ''decision_history'' = Some []"
      and "length ds = 101"
  shows "fst (add_decisions ds m) = None
       \<and> view (snd (add_decisions ds m)) ''decision_history'' = Some (map PyDecision (tl ds))
       \<and> length (map PyDecision (tl ds)) = 100
       \<and> view (snd (add_decisions (take k ds) m)) ''decision_history''
           = Some (map PyDecision (last_n 100 (take k ds)))
       \<and> length (last_n 100 (take k ds)) \<le> 100"
  using add_decisions_from_empty[OF assms(1), of ds] add_decisions_from_empty[OF assms(1), of "take k ds"]
    assms(2) last_n_tl[of ds 100]
  by (simp add: length_last_n)

text \<open>
  Claim C6, at an instance: one decision followed by 100 others, on a new manager.
\<close>

theorem add_decision_101_keeps_last_100_witness:
  "fst (add_decisions (Decision ''charge'' ''first'' 1 0 # replicate 100 (Decision ''hold'' ''later'' 2 1))
         (StateManager_new 0)) = None
   \<and> view (snd (add_decisions (Decision ''charge'' ''first'' 1 0 # replicate 100 (Decision ''hold'' ''later'' 2 1))
         (StateManager_new 0))) ''decision_history''
     = Some (replicate 100 (PyDecision (Decision ''hold'' ''later'' 2 1)))"
  using add_decision_101_keeps_last_100[of "StateManager_new 0"
      "Decision ''charge'' ''first'' 1 0 # replicate 100 (Decision ''hold'' ''later'' 2 1)" 0]
  by (simp add: new_manager_defs)

text \<open>
  Claim C7. From a manager whose two alert lists are empty, 51 calls of \<^verbatim>\<open>add_alert\<close>
  all return; the alert history then holds the 50 alerts of calls 2 to 51 in call order
  and the active list all 51.
\<close>

theorem add_alert_51_history_50_active_51:
  assumes "alert_lists m [] []"
      and "length as = 51"
  shows "fst (add_alerts as m) = None
       \<and> view (snd (add_alerts as m)) ''alert_history'' = Some (map PyAlert (tl as))
       \<and> length (map PyAlert (tl as)) = 50
       \<and> view (snd (add_alerts as m)) ''active_alerts'' = Some (map PyAlert as)
       \<and> length (map PyAlert as) = 51"
  using add_alerts_from_empty[OF assms(1), of as] assms(2) last_n_tl[of as 50]
  by (simp add: alert_lists_def)

text \<open>
  Claim C7, at an instance: one alert followed by 50 others, on a new manager.
\<close>

theorem add_alert_51_history_50_active_51_witness:
  "view (snd (add_alerts (Alert ''info'' ''first'' 1 ''ingestion'' # replicate 50 (Alert ''warning'' ''later'' 2 ''ingestion''))
         (StateManager_new 0))) ''alert_history''
     = Some (replicate 50 (PyAlert (Alert ''warning'' ''later'' 2 ''ingestion'')))
   \<and> view (snd (add_alerts (Alert ''info'' ''first'' 1 ''ingestion'' # replicate 50 (Alert ''warning'' ''later'' 2 ''ingestion''))
         (StateManager_new 0))) ''active_alerts''
     = Some (PyAlert (Alert ''info'' ''first'' 1 ''ingestion'') # replicate 50 (PyAlert (Alert ''warning'' ''later'' 2 ''ingestion'')))"
  using add_alert_51_history_50_active_51[of "StateManager_new 0"
      "Alert ''info'' ''first'' 1 ''ingestion'' # replicate 50 (Alert ''warning'' ''later'' 2 ''ingestion'')"]
  by (simp add: new_manager_defs alert_lists_def)

section \<open>Properties of the scheduler\<close>

lemmas scheduler_defs = reached_def AgentScheduler_new_def register_agent_def start_agent_def
  stop_agent_def discard_handle_def log_event_def sleep_def set_status_def task_status_def
  task_done_def task_cancelled_def restart_agent_def get_agent_status_def live_tasks_def
  start_all_agents_def monitor_wake_def run_ready_def run_task_def cancelled_end_def ended_by_def

subsection \<open>The task table in reachable states\<close>

lemma table_ok_new: "table_ok AgentScheduler_new"
  by (simp add: table_ok_def AgentScheduler_new_def)

lemma table_ok_register: "table_ok s \<Longrightarrow> table_ok (register_agent name a s)"
  by (auto simp: table_ok_def register_agent_def list_all_iff AList.dom_update)

lemma map_of_registered: "name \<in> fst ` set al \<Longrightarrow> \<exists>a. map_of al name = Some a"
  by (metis domD dom_map_of_conv_image_fst)

lemma set_update_subset: "set (AList.update k v al) \<subseteq> insert (k, v) (set al)"
  by (induction al) auto

lemma set_delete_subset: "set (AList.delete k al) \<subseteq> set al"
  by (auto simp: AList.delete_eq)

lemma table_ok_spawn:
  assumes ok: "table_ok s" and reg: "name \<in> fst ` set (agents s)"
  shows "table_ok (s\<lparr>loop_tasks := loop_tasks s @ [t],
                     tasks := AList.update name (length (loop_tasks s)) (tasks s)\<rparr>)"
proof -
  let ?tbl = "AList.update name (length (loop_tasks s)) (tasks s)"
  have d: "distinct (map fst ?tbl)"
    using ok by (simp add: table_ok_def AList.distinct_update)
  have "tid < Suc (length (loop_tasks s)) \<and> n \<in> fst ` set (agents s)" if "(n, tid) \<in> set ?tbl" for n tid
  proof -
    have "(n, tid) = (name, length (loop_tasks s)) \<or> (n, tid) \<in> set (tasks s)"
      using that set_update_subset[of name "length (loop_tasks s)" "tasks s"] by auto
    then show ?thesis
      using ok reg by (auto simp: table_ok_def list_all_iff)
  qed
  then show ?thesis
    using d by (auto simp: table_ok_def list_all_iff)
qed

lemma table_ok_log: "table_ok (log_event t x s) = table_ok s"
  by (simp add: table_ok_def log_event_def)

lemma table_ok_start: "table_ok s \<Longrightarrow> table_ok (snd (start_agent name s))"
proof (cases "map_of (agents s) name")
  case None
  assume "table_ok s"
  then show ?thesis using None by (simp add: start_agent_def)
next
  case (Some a)
  assume ok: "table_ok s"
  have reg: "name \<in> fst ` set (agents s)"
    using Some by (metis domI dom_map_of_conv_image_fst)
  show ?thesis
    using ok Some table_ok_spawn[OF ok reg]
    by (cases "start a") (simp_all add: start_agent_def table_ok_log)
qed

lemma table_ok_delete:
  "table_ok s \<Longrightarrow> table_ok (s\<lparr>tasks := AList.delete name (tasks s)\<rparr>)"
  using set_delete_subset[of name "tasks s"]
  by (auto simp: table_ok_def list_all_iff AList.distinct_delete)

lemma table_ok_set_status: "table_ok (set_status tid st s) = table_ok s"
  by (simp add: table_ok_def set_status_def)

lemma table_ok_run_ready: "table_ok (run_ready s) = table_ok s"
  by (simp add: table_ok_def run_ready_def)

lemma table_ok_sleep: "table_ok (sleep n s) = table_ok s"
  by (simp add: table_ok_def sleep_def run_ready_def)

lemma table_ok_discard: "table_ok s \<Longrightarrow> table_ok (snd (discard_handle name s))"
  using table_ok_delete[of s name] by (simp add: discard_handle_def table_ok_log)

lemma table_ok_stop: "table_ok s \<Longrightarrow> table_ok (snd (stop_agent name s))"
  by (auto simp: stop_agent_def table_ok_discard table_ok_set_status table_ok_run_ready
      split: option.splits task_state.splits)

lemma table_ok_restart: "table_ok s \<Longrightarrow> table_ok (snd (restart_agent name s))"
proof -
  assume ok: "table_ok s"
  obtain r1 s1 where st: "stop_agent name s = (r1, s1)" by (cases "stop_agent name s")
  have ok1: "table_ok (sleep 1 s1)"
    using table_ok_stop[OF ok, of name] st by (simp add: table_ok_sleep)
  obtain r2 s2 where sa: "start_agent name (sleep 1 s1) = (r2, s2)"
    by (cases "start_agent name (sleep 1 s1)")
  have ok2: "table_ok s2" using table_ok_start[OF ok1, of name] sa by simp
  show ?thesis
    using st sa ok1 ok2 table_ok_stop[OF ok, of name]
    by (cases r1; cases r2) (simp_all add: restart_agent_def table_ok_log)
qed

lemma table_ok_scan: "table_ok s \<Longrightarrow> table_ok (snd (monitor_scan todo s))"
proof (induction todo arbitrary: s)
  case Nil
  then show ?case by simp
next
  case (Cons entry todo)
  obtain name tid where entry: "entry = (name, tid)" by (cases entry)
  show ?case
  proof (cases "task_status s tid")
    case (Failed e)
    let ?s0 = "log_event ''error'' (''Agent '' @ name @ '' failed: '' @ exn_str e) s"
    obtain r s1 where re: "restart_agent name ?s0 = (r, s1)" by (cases "restart_agent name ?s0")
    have ok1: "table_ok s1"
      using table_ok_restart[of ?s0 name] Cons.prems re by (simp add: table_ok_log)
    show ?thesis
      using Failed entry re ok1 Cons.IH[OF ok1]
      by (cases r) (simp_all add: task_done_def task_cancelled_def)
  qed (use Cons entry in \<open>simp_all add: task_done_def task_cancelled_def\<close>)
qed

lemma table_ok_wake: "table_ok s \<Longrightarrow> table_ok (snd (monitor_wake s))"
proof -
  assume ok: "table_ok s"
  obtain r s1 where sc: "monitor_scan (tasks s) s = (r, s1)" by (cases "monitor_scan (tasks s) s")
  have "table_ok s1" using table_ok_scan[OF ok, of "tasks s"] sc by simp
  then show ?thesis
    using ok sc by (cases r) (simp_all add: monitor_wake_def table_ok_log table_ok_sleep)
qed

lemma table_ok_start_each: "table_ok s \<Longrightarrow> table_ok (start_each names s)"
  by (induction names arbitrary: s) (simp_all add: table_ok_start)

lemma table_ok_start_all: "table_ok s \<Longrightarrow> table_ok (snd (start_all_agents s))"
proof -
  assume "table_ok s"
  then have "table_ok (log_event ''scheduler_started'' ''scheduler'' (s\<lparr>running := True\<rparr>))"
    by (simp add: table_ok_def log_event_def)
  then show ?thesis
    by (simp add: start_all_agents_def Let_def table_ok_start_each table_ok_run_ready)
qed

lemma table_ok_env: "table_ok s \<Longrightarrow> table_ok (env_step ev s)"
  by (cases ev) (simp_all add: table_ok_set_status, simp add: table_ok_def)

lemma table_ok_stop_each: "table_ok s \<Longrightarrow> table_ok (snd (stop_each names s))"
proof (induction names arbitrary: s)
  case Nil
  then show ?case by simp
next
  case (Cons name names)
  obtain r s1 where st: "stop_agent name s = (r, s1)" by (cases "stop_agent name s")
  have "table_ok s1" using table_ok_stop[OF Cons.prems, of name] st by simp
  from Cons.IH[OF this] show ?case
    using st by (cases r) simp_all
qed

lemma table_ok_stop_all: "table_ok s \<Longrightarrow> table_ok (snd (stop_all_agents s))"
proof -
  assume ok: "table_ok s"
  let ?s0 = "s\<lparr>running := False, shutdown_event := True\<rparr>"
  have ok0: "table_ok ?s0" using ok by (simp add: table_ok_def)
  then have "table_ok (run_ready ?s0)" by (simp add: table_ok_run_ready)
  from table_ok_stop_each[OF this, of "map fst (tasks s)"] ok0 show ?thesis
    by (cases "stop_each (map fst (tasks s)) (run_ready ?s0)")
      (auto simp: stop_all_agents_def Let_def table_ok_log split: bool.splits)
qed

lemma table_ok_shutdown: "table_ok s \<Longrightarrow> table_ok (snd (shutdown s))"
proof -
  assume ok: "table_ok s"
  obtain r s1 where sa: "stop_all_agents s = (r, s1)" by (cases "stop_all_agents s")
  have "table_ok s1" using table_ok_stop_all[OF ok] sa by simp
  then show ?thesis
    using sa by (cases r) (simp_all add: shutdown_def table_ok_log)
qed

lemma table_ok_call: "table_ok s \<Longrightarrow> table_ok (do_call c s)"
  by (cases c)
    (simp_all add: table_ok_register table_ok_start table_ok_stop table_ok_restart table_ok_wake
      table_ok_env table_ok_stop_all table_ok_shutdown table_ok_start_all table_ok_sleep)

lemma table_ok_fold: "table_ok s \<Longrightarrow> table_ok (fold do_call cs s)"
  by (induction cs arbitrary: s) (simp_all add: table_ok_call)

lemma table_ok_reached: "table_ok (reached cs)"
  by (simp add: reached_def table_ok_fold table_ok_new)

subsection \<open>Registration\<close>

text \<open>
  Claim C5 does not hold: a second \<^verbatim>\<open>register_agent\<close> under a registered name
  raises nothing (the method has no failing path) and the name then maps to the second
  instance, which is not the first.
\<close>

theorem duplicate_registration_accepted:
  "map_of (agents (register_agent ''w'' worker AgentScheduler_new)) ''w'' = Some worker
   \<and> map_of (agents (register_agent ''w'' other_worker (register_agent ''w'' worker AgentScheduler_new))) ''w''
       = Some other_worker
   \<and> other_worker \<noteq> worker"
  by (simp add: scheduler_defs worker_def other_worker_def)

text \<open>
  Claim C5, amended. \<^verbatim>\<open>register_agent\<close> on any scheduler, also one where the name is
  registered, records the given instance under the name; every other registration, the
  task table and the tasks are as before.
\<close>

theorem register_agent_replaces:
  "map_of (agents (register_agent name a s)) name = Some a
   \<and> (other \<noteq> name \<longrightarrow> map_of (agents (register_agent name a s)) other = map_of (agents s) other)
   \<and> tasks (register_agent name a s) = tasks s
   \<and> loop_tasks (register_agent name a s) = loop_tasks s"
  by (simp add: register_agent_def AList.update_conv')

text \<open>
  Claim C5, amended, at an instance: a name is registered again while its first instance
  runs, next to another registered name.
\<close>

theorem register_agent_replaces_witness:
  "map_of (agents (register_agent ''w'' other_worker (reached [Register ''v'' worker, Register ''w'' worker, Start ''w''])))
      ''w'' = Some other_worker
   \<and> map_of (agents (register_agent ''w'' other_worker (reached [Register ''v'' worker, Register ''w'' worker, Start ''w''])))
      ''v'' = Some worker
   \<and> tasks (register_agent ''w'' other_worker (reached [Register ''v'' worker, Register ''w'' worker, Start ''w'']))
      = [(''w'', 0)]"
  using register_agent_replaces[of "''w''" other_worker
      "reached [Register ''v'' worker, Register ''w'' worker, Start ''w'']" "''v''"]
  by (simp add: scheduler_defs worker_def other_worker_def)

subsection \<open>Starting twice\<close>

text \<open>
  Claim C3 does not hold: after \<^verbatim>\<open>register\<close>, \<^verbatim>\<open>start\<close>, \<^verbatim>\<open>start\<close> of the same
  name the second start has returned, two tasks that are not done run for the name, and
  the table holds the handle of the second only.
\<close>

theorem second_start_spawns_second_task:
  "fst (start_agent ''w'' (reached [Register ''w'' worker, Start ''w''])) = Returns
   \<and> length (live_tasks ''w'' (reached [Register ''w'' worker, Start ''w''])) = 1
   \<and> length (live_tasks ''w'' (reached [Register ''w'' worker, Start ''w'', Start ''w''])) = 2
   \<and> tasks (reached [Register ''w'' worker, Start ''w'', Start ''w'']) = [(''w'', 1)]"
  by (simp add: scheduler_defs worker_def)

text \<open>
  Claim C3, amended. In every reachable state the task table holds one handle per name,
  each of a task of the loop and of a registered name. What \<^verbatim>\<open>start_agent\<close> does is
  decided by the registration of the name, in every state and so whether or not a task
  of the name is live: it raises \<^verbatim>\<open>ValueError\<close> for a name that is not registered and
  changes nothing; it returns and changes nothing for an instance without a \<^verbatim>\<open>start\<close>
  attribute; it raises and changes nothing for an instance whose \<^verbatim>\<open>start\<close> is no
  coroutine function; and for an instance whose \<^verbatim>\<open>start\<close> is a coroutine function it
  returns, having given the loop one more task for the name, which has not run yet, kept
  the earlier tasks as they are, and recorded the new handle.
\<close>

theorem start_agent_ignores_live_task:
  "table_ok (reached cs)
   \<and> (map_of (agents s) name = None \<longrightarrow>
        start_agent name s = (Raises (ValueError (''Agent '' @ name @ '' not registered'')), s))
   \<and> (map_of (agents s) name = Some a \<and> start a = NoStart \<longrightarrow> start_agent name s = (Returns, s))
   \<and> (map_of (agents s) name = Some a \<and> start a = OtherStart e \<longrightarrow> start_agent name s = (Raises e, s))
   \<and> (map_of (agents s) name = Some a \<and> start a = CoroutineStart \<longrightarrow>
        fst (start_agent name s) = Returns
        \<and> loop_tasks (snd (start_agent name s))
            = loop_tasks s @ [\<lparr>owner = name, runs = a, status = Created\<rparr>]
        \<and> live_tasks name (snd (start_agent name s))
            = live_tasks name s @ [\<lparr>owner = name, runs = a, status = Created\<rparr>]
        \<and> map_of (tasks (snd (start_agent name s))) name = Some (length (loop_tasks s)))"
  by (simp add: table_ok_reached start_agent_def log_event_def live_tasks_def task_done_def
      AList.update_conv')

text \<open>
  Claim C3, amended, at instances: the second start of a running worker, a start after
  the name was registered again with a plain \<^verbatim>\<open>start\<close> method, and a start of a name
  that is not registered.
\<close>

theorem start_agent_ignores_live_task_witness:
  "table_ok (reached [Register ''w'' worker, Start ''w'', Start ''w''])
   \<and> length (live_tasks ''w'' (reached [Register ''w'' worker, Start ''w''])) = 1
   \<and> live_tasks ''w'' (snd (start_agent ''w'' (reached [Register ''w'' worker, Start ''w''])))
       = live_tasks ''w'' (reached [Register ''w'' worker, Start ''w''])
           @ [\<lparr>owner = ''w'', runs = worker, status = Created\<rparr>]
   \<and> start_agent ''w'' (reached [Register ''w'' worker, Start ''w'', Register ''w'' plain_worker])
       = (Raises (TypeError ''a coroutine was expected, got None''),
          reached [Register ''w'' worker, Start ''w'', Register ''w'' plain_worker])
   \<and> start_agent ''v'' (reached [Register ''w'' worker, Start ''w''])
       = (Raises (ValueError ''Agent v not registered''), reached [Register ''w'' worker, Start ''w''])"
proof -
  have a: "map_of (agents (reached [Register ''w'' worker, Start ''w''])) ''w'' = Some worker"
    and b: "start worker = CoroutineStart"
    and c: "map_of (agents (reached [Register ''w'' worker, Start ''w'', Register ''w'' plain_worker])) ''w''
              = Some plain_worker"
    and d: "start plain_worker = OtherStart (TypeError ''a coroutine was expected, got None'')"
    and e: "map_of (agents (reached [Register ''w'' worker, Start ''w''])) ''v'' = None"
    and f: "length (live_tasks ''w'' (reached [Register ''w'' worker, Start ''w''])) = 1"
    by (simp_all add: scheduler_defs worker_def plain_worker_def)
  show ?thesis
    using a b f
      start_agent_ignores_live_task[of "[Register ''w'' worker, Start ''w'', Start ''w'']"
        "reached [Register ''w'' worker, Start ''w'']" "''w''" worker]
      c d
      start_agent_ignores_live_task[of "[]"
        "reached [Register ''w'' worker, Start ''w'', Register ''w'' plain_worker]" "''w''" plain_worker
        "TypeError ''a coroutine was expected, got None''"]
      e
      start_agent_ignores_live_task[of "[]" "reached [Register ''w'' worker, Start ''w'']" "''v''"]
    by simp
qed

subsection \<open>Status after start and stop\<close>










subsection \<open>The monitor\<close>





















text \<open>
  The same run through the loop itself: nothing to do at the first turn, the task raises
  during the first pause, and the second turn restarts the worker (30 seconds of pause, 1
  second in the restart, 30 seconds again).
\<close>

lemma monitor_loop_example:
  "fst (monitor_agents [[TaskEnds 0 (Failed (RuntimeError ''first iteration''))], []]
          (reached [Register ''w'' worker, StartAll])) = LoopGoesOn
   \<and> worker_running ''w'' (snd (monitor_agents [[TaskEnds 0 (Failed (RuntimeError ''first iteration''))], []]
          (reached [Register ''w'' worker, StartAll])))
   \<and> clock (snd (monitor_agents [[TaskEnds 0 (Failed (RuntimeError ''first iteration''))], []]
          (reached [Register ''w'' worker, StartAll]))) = 61"
  by (simp add: scheduler_defs worker_def worker_running_def)

end
